theory Spec2Isabelle
  imports Main "HOL-Library.Char_ord" "HOL-Library.List_Lexorder"
begin

section \<open>The metadata cache (compositedav/stat\_cache.go)\<close>

text \<open>
  A Go \<^verbatim>\<open>[]byte\<close> is either \<^verbatim>\<open>nil\<close> or a slice of bytes; \<open>None\<close> is \<^verbatim>\<open>nil\<close>.
  \<^verbatim>\<open>StatCache.get\<close> answers \<^verbatim>\<open>nil\<close> for a miss. Bytes are numbers below 256.
\<close>

type_synonym bytes = "nat list option"

text \<open>
  Modelled from the spec: the per-depth sub-cache is
  \<^verbatim>\<open>ttlcache.Cache[string, []byte]\<close> of github.com/jellydator/ttlcache/v3, a dependency
  whose code is not among the sources. The spec gives it these properties: an entry is
  opaque bytes with its insertion time, it expires a fixed TTL after insertion, storing
  overwrites the entry and resets its TTL clock, and clearing removes every entry while the
  structure and its eviction sweep stay alive. The wall clock that the library reads is
  the explicit argument \<open>now\<close> (nanoseconds). A TTL that is not positive never expires.
\<close>

record ttlItem =
  itemValue :: bytes
  insertedAt :: int

record ttlCache =
  cacheTTL :: int
  items :: "string \<rightharpoonup> ttlItem"
  running :: bool

definition ttlNew :: "int \<Rightarrow> ttlCache" where
  "ttlNew ttl = \<lparr>cacheTTL = ttl, items = Map.empty, running = False\<rparr>"

definition ttlStart :: "ttlCache \<Rightarrow> ttlCache" where
  "ttlStart cache = cache\<lparr>running := True\<rparr>"

definition ttlStop :: "ttlCache \<Rightarrow> ttlCache" where
  "ttlStop cache = cache\<lparr>running := False\<rparr>"

definition isExpired :: "ttlCache \<Rightarrow> ttlItem \<Rightarrow> int \<Rightarrow> bool" where
  "isExpired cache item now \<longleftrightarrow> 0 < cacheTTL cache \<and> insertedAt item + cacheTTL cache < now"

definition ttlGet :: "ttlCache \<Rightarrow> string \<Rightarrow> int \<Rightarrow> ttlItem option" where
  "ttlGet cache name now =
     (case items cache name of
        None \<Rightarrow> None
      | Some item \<Rightarrow> if isExpired cache item now then None else Some item)"

definition ttlSet :: "ttlCache \<Rightarrow> string \<Rightarrow> bytes \<Rightarrow> int \<Rightarrow> ttlCache" where
  "ttlSet cache name v now =
     cache\<lparr>items := (items cache)(name \<mapsto> \<lparr>itemValue = v, insertedAt = now\<rparr>)\<rparr>"

definition ttlDeleteAll :: "ttlCache \<Rightarrow> ttlCache" where
  "ttlDeleteAll cache = cache\<lparr>items := Map.empty\<rparr>"

text \<open>
  \<^verbatim>\<open>StatCache\<close>: the field \<^verbatim>\<open>caches\<close> is a Go map that starts out \<^verbatim>\<open>nil\<close> (\<open>None\<close>) and
  is made by the first \<^verbatim>\<open>set\<close>. A key that is missing from the map reads as the
  \<^verbatim>\<open>nil\<close> sub-cache. The mutex \<^verbatim>\<open>mu\<close> makes each operation atomic: one operation is one
  function from state to state.
\<close>

record StatCache =
  TTL :: int
  caches :: "(int \<rightharpoonup> ttlCache) option"

definition get :: "StatCache \<Rightarrow> string \<Rightarrow> int \<Rightarrow> int \<Rightarrow> bytes" where
  "get c name depth now =
     (case caches c of
        None \<Rightarrow> None
      | Some m \<Rightarrow>
          (case m depth of
             None \<Rightarrow> None
           | Some cache \<Rightarrow>
               (case ttlGet cache name now of
                  None \<Rightarrow> None
                | Some item \<Rightarrow> itemValue item)))"

definition set_entry :: "StatCache \<Rightarrow> string \<Rightarrow> int \<Rightarrow> bytes \<Rightarrow> int \<Rightarrow> StatCache" where
  "set_entry c name depth v now =
     (let m = (case caches c of None \<Rightarrow> Map.empty | Some m \<Rightarrow> m);
          cache = (case m depth of
                     None \<Rightarrow> ttlStart (ttlNew (TTL c))
                   | Some cache \<Rightarrow> cache)
      in c\<lparr>caches := Some (m(depth \<mapsto> ttlSet cache name v now))\<rparr>)"

definition invalidate :: "StatCache \<Rightarrow> StatCache" where
  "invalidate c =
     (case caches c of
        None \<Rightarrow> c
      | Some m \<Rightarrow> c\<lparr>caches := Some (\<lambda>d. map_option ttlDeleteAll (m d))\<rparr>)"

definition stop :: "StatCache \<Rightarrow> StatCache" where
  "stop c =
     (case caches c of
        None \<Rightarrow> c
      | Some m \<Rightarrow> c\<lparr>caches := Some (\<lambda>d. map_option ttlStop (m d))\<rparr>)"

text \<open>The TTL that governs an entry stored now at \<open>depth\<close>: that of the sub-cache of the
  depth when there is one, and otherwise the TTL a new sub-cache is made with.\<close>

definition ttlFor :: "StatCache \<Rightarrow> int \<Rightarrow> int" where
  "ttlFor c depth =
     (case caches c of
        None \<Rightarrow> TTL c
      | Some m \<Rightarrow> (case m depth of None \<Rightarrow> TTL c | Some cache \<Rightarrow> cacheTTL cache))"

text \<open>The sub-cache of a depth, \<open>None\<close> when the map is \<^verbatim>\<open>nil\<close> or has no such key.\<close>

definition subCache :: "StatCache \<Rightarrow> int \<Rightarrow> ttlCache option" where
  "subCache c depth = (case caches c of None \<Rightarrow> None | Some m \<Rightarrow> m depth)"

text \<open>The cache of \<^verbatim>\<open>TestStatCache\<close>: a TTL of one second and nothing stored.\<close>

definition testCache :: StatCache where
  "testCache = \<lparr>TTL = 1000000000, caches = None\<rparr>"

section \<open>The composite router (compositedav.go)\<close>

text \<open>
  \<^verbatim>\<open>Child.Transport\<close> is an \<^verbatim>\<open>http.RoundTripper\<close>: an \<^verbatim>\<open>*http.Transport\<close> with its pool of
  connections (the number names the pool), some other round tripper, or \<^verbatim>\<open>nil\<close>.
\<close>

datatype transport = HTTPTransport nat | OtherRoundTripper nat | NoTransport

text \<open>
  \<^verbatim>\<open>Child\<close>: \<open>Name\<close> comes from the embedded \<^verbatim>\<open>dirfs.Child\<close>. \<open>rp\<close> is the reverse proxy,
  \<^verbatim>\<open>nil\<close> (\<open>None\<close>) until \<^verbatim>\<open>init\<close> has run; the proxy is determined by the transport it
  was built with.
\<close>

record Child =
  Name :: string
  BaseURL :: string
  Transport :: transport
  rp :: "transport option"

record url =
  Scheme :: string
  URLHost :: string
  Path :: string

record request =
  Method :: string
  URL :: url
  Host :: string

record response =
  status :: nat
  body :: string

datatype panic = IndexOutOfRange | NilDereference

text \<open>
  \<^verbatim>\<open>Handler\<close>. \<^verbatim>\<open>StatCache\<close> is a pointer that may be \<^verbatim>\<open>nil\<close>. The lock \<^verbatim>\<open>childrenMu\<close>
  makes every read and every swap of \<open>children\<close> and \<open>staticRoot\<close> atomic; \<^verbatim>\<open>Logf\<close> and
  \<^verbatim>\<open>Clock\<close> play no part in routing.
\<close>

record Handler =
  StatCache :: "StatCache option"
  children :: "Child list"
  staticRoot :: string

text \<open>
  Modelled from the spec: \<^verbatim>\<open>dirfs.FS\<close>, the virtual directory filesystem, whose code is
  not among the sources (only its tests are). It holds the optional static root name and
  the backends, of which the spec uses the names only. The clock of a \<^verbatim>\<open>dirfs.FS\<close> is the
  argument \<open>now\<close> of \<open>Stat\<close>.
\<close>

record FS =
  StaticRoot :: string
  Children :: "string list"

text \<open>
  What serving a request yields: the handler afterwards, the response (or the panic), and
  the calls that matter for routing, in the order the code makes them: the invalidation
  of the cache, the delegation to a backend with the path components it is given, and the
  local handling by the virtual directory filesystem.
\<close>

datatype event = Invalidated | Delegated "string list" | HandledLocally

record served =
  handlerAfter :: Handler
  events :: "event list"
  outcome :: "panic + response"

text \<open>
  What \<^verbatim>\<open>compositedav.go\<close> calls and the sources do not hold: \<^verbatim>\<open>shared.CleanAndSplit\<close> and
  \<^verbatim>\<open>shared.Join\<close> of this repository, \<^verbatim>\<open>path.Join\<close> and \<^verbatim>\<open>url.Parse\<close> of the Go library
  (\<open>Inl\<close> carries \<^verbatim>\<open>err.Error()\<close>), \<^verbatim>\<open>httputil.ReverseProxy.ServeHTTP\<close> of a proxy with the
  given transport, \<^verbatim>\<open>Handler.handlePROPFIND\<close> (in a file of its own; everything it does
  is its result), and \<^verbatim>\<open>webdav.Handler.ServeHTTP\<close> over a \<^verbatim>\<open>dirfs.FS\<close>. They are
  parameters.
\<close>

record externals =
  CleanAndSplit :: "string \<Rightarrow> string list"
  Join :: "string list \<Rightarrow> string"
  pathJoin :: "string \<Rightarrow> string \<Rightarrow> string"
  urlParse :: "string \<Rightarrow> string + url"
  rpServeHTTP :: "transport \<Rightarrow> request \<Rightarrow> response"
  handlePROPFIND :: "Handler \<Rightarrow> request \<Rightarrow> served"
  webdavServeHTTP :: "FS \<Rightarrow> request \<Rightarrow> response"

text \<open>\<^verbatim>\<open>Child.CloseIdleConnections\<close>, on the list of the pools closed so far: it acts only
  when the transport is an \<^verbatim>\<open>*http.Transport\<close>.\<close>

definition CloseIdleConnections :: "Child \<Rightarrow> nat list \<Rightarrow> nat list" where
  "CloseIdleConnections c closed =
     (case Transport c of HTTPTransport pool \<Rightarrow> closed @ [pool] | _ \<Rightarrow> closed)"

text \<open>\<^verbatim>\<open>Child.init\<close>: \<^verbatim>\<open>initOnce\<close> builds the proxy the first time only.\<close>

definition init :: "Child \<Rightarrow> Child" where
  "init c = (case rp c of None \<Rightarrow> c\<lparr>rp := Some (Transport c)\<rparr> | Some _ \<Rightarrow> c)"

text \<open>\<^verbatim>\<open>strings.Compare\<close>: the byte-wise lexicographic order of strings.\<close>

definition stringsCompare :: "string \<Rightarrow> string \<Rightarrow> int" where
  "stringsCompare a b = (if a = b then 0 else if a < b then - 1 else 1)"

text \<open>
  \<^verbatim>\<open>slices.BinarySearchFunc\<close> of the Go library: its loop keeps \<open>i \<le> j\<close>, halves the
  interval (\<^verbatim>\<open>h := int(uint(i+j) >> 1)\<close>), and ends with \<open>i = j\<close>.
\<close>

function binarySearchLoop :: "'a list \<Rightarrow> 't \<Rightarrow> ('a \<Rightarrow> 't \<Rightarrow> int) \<Rightarrow> nat \<Rightarrow> nat \<Rightarrow> nat" where
  "binarySearchLoop x target cmp i j =
     (if i < j then
        (let h = (i + j) div 2
         in if cmp (x ! h) target < 0 then binarySearchLoop x target cmp (h + 1) j
            else binarySearchLoop x target cmp i h)
      else i)"
  by pat_completeness auto
termination
  by (relation "measure (\<lambda>(x, target, cmp, i, j). j - i)") auto

declare binarySearchLoop.simps [simp del]

definition BinarySearchFunc :: "'a list \<Rightarrow> 't \<Rightarrow> ('a \<Rightarrow> 't \<Rightarrow> int) \<Rightarrow> nat \<times> bool" where
  "BinarySearchFunc x target cmp =
     (let n = length x; i = binarySearchLoop x target cmp 0 n
      in (i, i < n \<and> cmp (x ! i) target = 0))"

definition findChildLocked :: "Handler \<Rightarrow> string \<Rightarrow> nat \<times> Child option" where
  "findChildLocked h name =
     (let (i, found) =
            BinarySearchFunc (children h) name (\<lambda>child name. stringsCompare (Name child) name)
      in (i, if found then Some (children h ! i) else None))"

definition GetChild :: "Handler \<Rightarrow> string \<Rightarrow> Child option" where
  "GetChild h name = snd (findChildLocked h name)"

definition maxPathLength :: "Handler \<Rightarrow> nat" where
  "maxPathLength h = (let mpl = 1 in if staticRoot h \<noteq> [] then mpl + 1 else mpl)"

text \<open>
  \<^verbatim>\<open>Handler.SetChildren\<close>. \<^verbatim>\<open>slices.SortFunc\<close> leaves the children in the order of
  \<^verbatim>\<open>strings.Compare\<close> on their names (it promises no order among equal names; the model
  keeps their given order). The second result lists the pools whose idle connections the
  call closed.
\<close>

definition SetChildren :: "Handler \<Rightarrow> string \<Rightarrow> Child list \<Rightarrow> Handler \<times> nat list" where
  "SetChildren h staticRoot' children' =
     (let children1 = map init children';
          children2 = sort_key Name children1;
          oldChildren = children2;
          h' = h\<lparr>children := children2, staticRoot := staticRoot'\<rparr>
      in (h', fold CloseIdleConnections oldChildren []))"

text \<open>\<^verbatim>\<open>Handler.Close\<close>.\<close>

definition Close :: "Handler \<Rightarrow> Handler \<times> nat list" where
  "Close h =
     (let oldChildren = children h;
          h' = h\<lparr>children := []\<rparr>;
          closed = fold CloseIdleConnections oldChildren []
      in (h'\<lparr>StatCache := map_option stop (StatCache h')\<rparr>, closed))"

text \<open>
  \<^verbatim>\<open>Handler.delegate\<close> returns the child's name and, here, what it wrote to the response
  writer. Indexing an empty slice and calling a \<^verbatim>\<open>nil\<close> proxy panic.
\<close>

definition delegate ::
  "externals \<Rightarrow> Handler \<Rightarrow> string list \<Rightarrow> request \<Rightarrow> panic + string \<times> response" where
  "delegate ext h pathComponents r =
     (case pathComponents of
        [] \<Rightarrow> Inl IndexOutOfRange
      | childName # rest \<Rightarrow>
          (case GetChild h childName of
             None \<Rightarrow> Inr (childName, \<lparr>status = 404, body = []\<rparr>)
           | Some child \<Rightarrow>
               (case urlParse ext (BaseURL child) of
                  Inl err \<Rightarrow> Inr (childName, \<lparr>status = 500, body = err\<rparr>)
                | Inr u \<Rightarrow>
                    (let u' = u\<lparr>Path := pathJoin ext (Path u) (Join ext rest)\<rparr>;
                         r' = r\<lparr>URL := u', Host := URLHost u'\<rparr>
                     in case rp child of
                          None \<Rightarrow> Inl NilDereference
                        | Some tr \<Rightarrow> Inr (childName, rpServeHTTP ext tr r')))))"

text \<open>\<^verbatim>\<open>Handler.handle\<close>: the request is served by a \<^verbatim>\<open>webdav.Handler\<close> over a
  \<^verbatim>\<open>dirfs.FS\<close> of the current children and static root.\<close>

definition handle :: "externals \<Rightarrow> Handler \<Rightarrow> request \<Rightarrow> response" where
  "handle ext h r =
     webdavServeHTTP ext \<lparr>StaticRoot = staticRoot h, Children = map Name (children h)\<rparr> r"

text \<open>
  \<^verbatim>\<open>Handler.ServeHTTP\<close>. A \<^verbatim>\<open>PROPFIND\<close> request is \<^verbatim>\<open>handlePROPFIND\<close>'s from the first
  line on; every other request is invalidated for and routed here.
\<close>

definition ServeHTTP :: "externals \<Rightarrow> Handler \<Rightarrow> request \<Rightarrow> served" where
  "ServeHTTP ext h r =
     (if Method r = ''PROPFIND'' then
        handlePROPFIND ext h r
      else
        (let (h1, ev) =
               (if StatCache h \<noteq> None \<and> Method r \<noteq> ''GET''
                then (h\<lparr>StatCache := map_option invalidate (StatCache h)\<rparr>, [Invalidated])
                else (h, []));
             mpl = maxPathLength h1;
             pathComponents = CleanAndSplit ext (Path (URL r))
         in if length pathComponents \<ge> mpl then
              \<lparr>handlerAfter = h1,
               events = ev @ [Delegated (drop (mpl - 1) pathComponents)],
               outcome = map_sum id snd (delegate ext h1 (drop (mpl - 1) pathComponents) r)\<rparr>
            else
              \<lparr>handlerAfter = h1, events = ev @ [HandledLocally],
               outcome = Inr (handle ext h1 r)\<rparr>))"

text \<open>
  The wire protocol of a listing request is outside the spec: the depth that the request
  asks for, whether a response is a successful listing, the bytes that a listing is
  cached as, and the response that serves cached bytes. They are parameters.
\<close>

record codec =
  depthOf :: "request \<Rightarrow> int"
  listed :: "response \<Rightarrow> bool"
  serialise :: "response \<Rightarrow> nat list"
  replay :: "nat list \<Rightarrow> response"

text \<open>
  Modelled from the spec: \<^verbatim>\<open>Handler.handlePROPFIND\<close>, the handling of listing requests,
  which \<^verbatim>\<open>ServeHTTP\<close> calls and whose file is not among the sources. The spec routes a
  listing request as it routes every request (section 4.1): by the count of the path's
  segments against the virtual depth. A deeper path is rewritten and forwarded to the
  backend. A shallow path is served by the virtual directory filesystem, using the cache
  for listing operations (section 2): the cached bytes of the request's name and depth
  answer it when present and unexpired (section 4.3); otherwise the filesystem answers,
  and a successful listing is stored under that name and depth (section 3). A listing is
  a read: it does not invalidate the cache (section 4.1).
\<close>

definition handlePROPFIND_spec ::
  "externals \<Rightarrow> codec \<Rightarrow> int \<Rightarrow> Handler \<Rightarrow> request \<Rightarrow> served" where
  "handlePROPFIND_spec ext cd now h r =
     (let mpl = maxPathLength h;
          pathComponents = CleanAndSplit ext (Path (URL r))
      in if length pathComponents \<ge> mpl then
           \<lparr>handlerAfter = h,
            events = [Delegated (drop (mpl - 1) pathComponents)],
            outcome = map_sum id snd (delegate ext h (drop (mpl - 1) pathComponents) r)\<rparr>
         else
           (case StatCache h of
              None \<Rightarrow>
                \<lparr>handlerAfter = h, events = [HandledLocally], outcome = Inr (handle ext h r)\<rparr>
            | Some c \<Rightarrow>
                (case get c (Path (URL r)) (depthOf cd r) now of
                   Some bs \<Rightarrow>
                     \<lparr>handlerAfter = h, events = [HandledLocally],
                      outcome = Inr (replay cd bs)\<rparr>
                 | None \<Rightarrow>
                     (let resp = handle ext h r;
                          c' = (if listed cd resp
                                then set_entry c (Path (URL r)) (depthOf cd r)
                                       (Some (serialise cd resp)) now
                                else c)
                      in \<lparr>handlerAfter = h\<lparr>StatCache := Some c'\<rparr>,
                          events = [HandledLocally], outcome = Inr resp\<rparr>))))"

text \<open>The parameters with the listing handler of the spec in the place of
  \<^verbatim>\<open>handlePROPFIND\<close>.\<close>

definition withSpecPROPFIND :: "externals \<Rightarrow> codec \<Rightarrow> int \<Rightarrow> externals" where
  "withSpecPROPFIND ext cd now = ext\<lparr>handlePROPFIND := handlePROPFIND_spec ext cd now\<rparr>"

section \<open>The virtual directory filesystem (dirfs)\<close>

datatype fsError = ErrNotExist | ErrPermission

text \<open>\<^verbatim>\<open>shared.StaticFileInfo\<close>, as the tests of dirfs build it.\<close>

record StaticFileInfo =
  Named :: string
  Sized :: int
  ModdedTime :: int
  Dir :: bool

text \<open>
  Modelled from the spec: how a path names a node. The spec and the tests write the root
  as \<^verbatim>\<open>""\<close> or \<^verbatim>\<open>"/"\<close>, the static root as \<^verbatim>\<open>"/domain"\<close> and a backend as
  \<^verbatim>\<open>"/domain/remote1"\<close>: a path is read as its segments, the non-empty parts between
  slashes. \<open>splitSlash cur p\<close> splits \<open>p\<close> with \<open>cur\<close> the segment read so far.
\<close>

fun splitSlash :: "string \<Rightarrow> string \<Rightarrow> string list" where
  "splitSlash cur [] = (if cur = [] then [] else [cur])"
| "splitSlash cur (c # cs) =
     (if c = CHR ''/'' then (if cur = [] then splitSlash [] cs else cur # splitSlash [] cs)
      else splitSlash (cur @ [c]) cs)"

text \<open>Modelled from the spec: the segments of a path.\<close>

definition pathSegments :: "string \<Rightarrow> string list" where
  "pathSegments p = splitSlash [] p"

text \<open>
  Modelled from the spec: the virtual nodes. They exist for the absolute root, for the
  static root when one is configured, and for each backend name: under the static root
  when there is one, and directly under the root otherwise. Nothing else is a node.
\<close>

datatype vnode = RootNode | StaticRootNode | BackendNode string

text \<open>
  Modelled from the spec: the node that a path names, if any. The root is the path without
  segments; with a static root, the static root is the one segment of that name and a
  backend is that segment followed by a registered name; without one, a backend is the
  one segment that is a registered name.
\<close>

definition lookupNode :: "FS \<Rightarrow> string \<Rightarrow> vnode option" where
  "lookupNode fs p =
     (case pathSegments p of
        [] \<Rightarrow> Some RootNode
      | [a] \<Rightarrow>
          (if StaticRoot fs = [] then
             (if a \<in> set (Children fs) then Some (BackendNode a) else None)
           else if a = StaticRoot fs then Some StaticRootNode else None)
      | [a, b] \<Rightarrow>
          (if StaticRoot fs \<noteq> [] \<and> a = StaticRoot fs \<and> b \<in> set (Children fs)
           then Some (BackendNode b) else None)
      | _ \<Rightarrow> None)"

text \<open>Modelled from the spec: the name of a virtual node; the root's is empty.\<close>

definition nodeName :: "FS \<Rightarrow> vnode \<Rightarrow> string" where
  "nodeName fs n =
     (case n of RootNode \<Rightarrow> [] | StaticRootNode \<Rightarrow> StaticRoot fs | BackendNode b \<Rightarrow> b)"

text \<open>
  Modelled from the spec: \<^verbatim>\<open>FS.Stat\<close>, whose code is not among the sources. A virtual
  node is a directory of size 0 with the clock's time; any other path fails with
  Not-Exists.
\<close>

definition Stat :: "FS \<Rightarrow> int \<Rightarrow> string \<Rightarrow> fsError + StaticFileInfo" where
  "Stat fs now p =
     (case lookupNode fs p of
        None \<Rightarrow> Inl ErrNotExist
      | Some n \<Rightarrow> Inr \<lparr>Named = nodeName fs n, Sized = 0, ModdedTime = now, Dir = True\<rparr>)"

text \<open>
  Modelled from the spec: \<^verbatim>\<open>FS.Mkdir\<close>, whose code is not among the sources. It succeeds
  as a no-op when the path already names an existing virtual node and fails with
  Permission-Denied when it names anything else. \<open>Inr\<close> carries the filesystem afterwards.
\<close>

definition Mkdir :: "FS \<Rightarrow> string \<Rightarrow> fsError + FS" where
  "Mkdir fs p = (case lookupNode fs p of Some _ \<Rightarrow> Inr fs | None \<Rightarrow> Inl ErrPermission)"

text \<open>
  Modelled from the spec: \<^verbatim>\<open>FS.RemoveAll\<close> and \<^verbatim>\<open>FS.Rename\<close>, whose code is not among the
  sources. They fail with Permission-Denied when the source path is a virtual-level
  node. The spec leaves open what they answer on any other path (the router sends paths
  below the virtual boundary to a backend): that answer is the parameter \<open>other\<close>.
\<close>

definition RemoveAll :: "(string \<Rightarrow> fsError + FS) \<Rightarrow> FS \<Rightarrow> string \<Rightarrow> fsError + FS" where
  "RemoveAll other fs p =
     (case lookupNode fs p of Some _ \<Rightarrow> Inl ErrPermission | None \<Rightarrow> other p)"

text \<open>Modelled from the spec: \<^verbatim>\<open>FS.Rename\<close>, decided by the source path \<open>oldName\<close> as
  \<open>RemoveAll\<close> is by its path.\<close>

definition Rename ::
  "(string \<Rightarrow> string \<Rightarrow> fsError + FS) \<Rightarrow> FS \<Rightarrow> string \<Rightarrow> string \<Rightarrow> fsError + FS" where
  "Rename other fs oldName newName =
     (case lookupNode fs oldName of
        Some _ \<Rightarrow> Inl ErrPermission
      | None \<Rightarrow> other oldName newName)"

text \<open>The filesystem of \<^verbatim>\<open>createFileSystem\<close> in the tests of dirfs.\<close>

definition testFS :: FS where
  "testFS = \<lparr>StaticRoot = ''domain'', Children = [''remote1'', ''remote2'', ''remote4'']\<rparr>"

section \<open>Example inputs\<close>

text \<open>
  A choice of the parameters for the worked examples: paths split at slashes, segments
  joined by slashes, a base address that parses unless it is empty, a proxy that answers
  207 with the path it was asked for, and fixed answers of the other handlers (the
  examples with a listing request put the listing handler of the spec in).
\<close>

definition joinSlash :: "string list \<Rightarrow> string" where
  "joinSlash segs = concat (map (\<lambda>s. CHR ''/'' # s) segs)"

definition exampleParse :: "string \<Rightarrow> string + url" where
  "exampleParse s =
     (if s = [] then Inl ''empty url''
      else Inr \<lparr>Scheme = ''http'', URLHost = s, Path = []\<rparr>)"

definition exampleProxy :: "transport \<Rightarrow> request \<Rightarrow> response" where
  "exampleProxy tr r = \<lparr>status = 207, body = Path (URL r)\<rparr>"

definition examplePROPFIND :: "Handler \<Rightarrow> request \<Rightarrow> served" where
  "examplePROPFIND h r =
     \<lparr>handlerAfter = h, events = [], outcome = Inr \<lparr>status = 207, body = []\<rparr>\<rparr>"

definition exampleWebdav :: "FS \<Rightarrow> request \<Rightarrow> response" where
  "exampleWebdav fs r = \<lparr>status = 200, body = []\<rparr>"

definition exampleExt :: externals where
  "exampleExt =
     \<lparr>CleanAndSplit = pathSegments, Join = joinSlash, pathJoin = (@),
      urlParse = exampleParse, rpServeHTTP = exampleProxy,
      handlePROPFIND = examplePROPFIND, webdavServeHTTP = exampleWebdav\<rparr>"

text \<open>A choice of the listing protocol: every listing asks for depth 1, a response below
  300 is a successful listing, and the cached bytes are the bytes of the body.\<close>

definition exampleCodec :: codec where
  "exampleCodec =
     \<lparr>depthOf = (\<lambda>r. 1), listed = (\<lambda>resp. status resp < 300),
      serialise = (\<lambda>resp. map of_char (body resp)),
      replay = (\<lambda>bs. \<lparr>status = 207, body = map char_of bs\<rparr>)\<rparr>"

definition oldChild :: Child where
  "oldChild = \<lparr>Name = ''old'', BaseURL = ''old.example'', Transport = HTTPTransport 1, rp = None\<rparr>"

definition newChild :: Child where
  "newChild = \<lparr>Name = ''new'', BaseURL = ''new.example'', Transport = HTTPTransport 2, rp = None\<rparr>"

definition emptyHandler :: Handler where
  "emptyHandler = \<lparr>StatCache = None, children = [], staticRoot = []\<rparr>"

definition badChild :: Child where
  "badChild = \<lparr>Name = ''bad'', BaseURL = [], Transport = NoTransport, rp = None\<rparr>"

text \<open>A handler serving three backends without a static root, one with a cache that holds
  an entry, and one serving a backend under the static root \<^verbatim>\<open>domain\<close>.\<close>

definition exampleHandler :: Handler where
  "exampleHandler = fst (SetChildren emptyHandler [] [oldChild, newChild, badChild])"

definition cachingHandler :: Handler where
  "cachingHandler =
     exampleHandler\<lparr>StatCache := Some (set_entry testCache ''/old/a'' 1 (Some [49]) 0)\<rparr>"


definition requestOf :: "string \<Rightarrow> string \<Rightarrow> request" where
  "requestOf m p =
     \<lparr>Method = m, URL = \<lparr>Scheme = [], URLHost = [], Path = p\<rparr>, Host = ''composite''\<rparr>"

section \<open>Properties of the metadata cache\<close>

lemma get_set_entry_same:
  "get (set_entry c name depth v t) name depth t' =
     (if 0 < ttlFor c depth \<and> t + ttlFor c depth < t' then None else v)"
  by (auto simp add: get_def set_entry_def ttlGet_def ttlSet_def isExpired_def ttlFor_def
      ttlStart_def ttlNew_def Let_def split: option.splits)

lemma get_set_entry_other_depth:
  "d1 \<noteq> d2 \<Longrightarrow> get (set_entry c name d1 v t) name' d2 t' = get c name' d2 t'"
  by (simp add: get_def set_entry_def Let_def split: option.splits)

lemma get_invalidate: "get (invalidate c) name depth t = None"
  by (simp add: get_def invalidate_def ttlGet_def ttlDeleteAll_def split: option.splits)

lemma subCache_invalidate:
  "subCache (invalidate c) depth = map_option ttlDeleteAll (subCache c depth)"
  by (simp add: subCache_def invalidate_def split: option.splits)

lemma ttlFor_invalidate: "ttlFor (invalidate c) depth = ttlFor c depth"
  by (simp add: ttlFor_def invalidate_def ttlDeleteAll_def split: option.splits)

text \<open>
  Claim C5. Storing a value with \<^verbatim>\<open>set(name, depth, value)\<close> at time \<open>t\<close> and reading it
  with \<^verbatim>\<open>get(name, depth)\<close> at time \<open>t'\<close>, with nothing in between and the entry not
  expired at \<open>t'\<close> (the TTL is not positive, or \<open>t'\<close> is at most \<open>t\<close> plus the TTL), returns
  exactly the stored value, whatever the name, the depth, the value and the cache before.
\<close>

theorem get_after_set_entry:
  "ttlFor c depth \<le> 0 \<or> t' \<le> t + ttlFor c depth \<Longrightarrow>
   get (set_entry c name depth v t) name depth t' = v"
  by (auto simp add: get_set_entry_same)

text \<open>The first step of \<^verbatim>\<open>TestStatCache\<close>: \<^verbatim>\<open>set("file", 1, "1")\<close>, then \<^verbatim>\<open>get("file", 1)\<close>
  at once.\<close>

theorem get_after_set_entry_witness:
  "(ttlFor testCache 1 \<le> 0 \<or> (0::int) \<le> 0 + ttlFor testCache 1) \<and>
   get (set_entry testCache ''file'' 1 (Some [49]) 0) ''file'' 1 0 = Some [49]"
  using get_after_set_entry [of testCache 1 0 0 "''file''" "Some [49]"]
  by (simp add: ttlFor_def testCache_def)

text \<open>
  Claim C6. For distinct depths \<open>d1\<close> and \<open>d2\<close>, \<^verbatim>\<open>set(name, d1, v)\<close> leaves what
  \<^verbatim>\<open>get(name, d2)\<close> returns as it was; so when nothing is to be had at \<open>(name, d2)\<close>
  before, \<^verbatim>\<open>get(name, d2)\<close> after the \<^verbatim>\<open>set\<close> returns absent. Entries of different depths
  under one name are independent.
\<close>

theorem get_other_depth_absent:
  assumes "d1 \<noteq> d2"
  shows "get (set_entry c name d1 v t) name d2 t' = get c name d2 t' \<and>
         (get c name d2 t' = None \<longrightarrow> get (set_entry c name d1 v t) name d2 t' = None)"
  using assms by (simp add: get_set_entry_other_depth)

text \<open>On the empty cache: \<^verbatim>\<open>set("file", 1, "1")\<close>, then \<^verbatim>\<open>get("file", 0)\<close>.\<close>

theorem get_other_depth_absent_witness:
  "(1::int) \<noteq> 0 \<and> get testCache ''file'' 0 5 = None \<and>
   get (set_entry testCache ''file'' 1 (Some [49]) 0) ''file'' 0 5 = None"
proof -
  have d: "(1::int) \<noteq> 0" by simp
  have g: "get testCache ''file'' 0 5 = None" by (simp add: get_def testCache_def)
  show ?thesis
    using d g get_other_depth_absent
      [where ?d1.0 = 1 and ?d2.0 = 0 and c = testCache and name = "''file''" and v = "Some [49]"
         and t = 0 and t' = 5]
    by simp
qed

text \<open>
  Claim C7. After \<^verbatim>\<open>invalidate()\<close>, \<^verbatim>\<open>get\<close> returns absent for every name and depth, so for
  every entry set before; every depth keeps its sub-cache, emptied and otherwise as it
  was (its TTL and its running sweep); and a later \<^verbatim>\<open>set\<close> followed by a \<^verbatim>\<open>get\<close> of the same
  key, before the entry expires, returns the newly stored value.
\<close>

theorem invalidate_clears_keeps_subcaches:
  "get (invalidate c) name depth t = None \<and>
   subCache (invalidate c) d = map_option (\<lambda>cache. cache\<lparr>items := Map.empty\<rparr>) (subCache c d) \<and>
   (ttlFor c depth \<le> 0 \<or> t' \<le> t + ttlFor c depth \<longrightarrow>
      get (set_entry (invalidate c) name depth v t) name depth t' = v)"
proof (intro conjI)
  show "get (invalidate c) name depth t = None" by (rule get_invalidate)
  show "subCache (invalidate c) d = map_option (\<lambda>cache. cache\<lparr>items := Map.empty\<rparr>) (subCache c d)"
    by (simp add: subCache_invalidate ttlDeleteAll_def [abs_def])
  show "ttlFor c depth \<le> 0 \<or> t' \<le> t + ttlFor c depth \<longrightarrow>
      get (set_entry (invalidate c) name depth v t) name depth t' = v"
    by (auto simp add: get_set_entry_same ttlFor_invalidate)
qed

text \<open>The last step of \<^verbatim>\<open>TestStatCache\<close>: an entry is set and read, the cache is
  invalidated, the entry is gone and its sub-cache still runs, and a new value set at
  time 7 is read at time 8.\<close>

theorem invalidate_clears_keeps_subcaches_witness:
  "get (set_entry testCache ''file'' 1 (Some [49]) 0) ''file'' 1 0 = Some [49] \<and>
   get (invalidate (set_entry testCache ''file'' 1 (Some [49]) 0)) ''file'' 1 7 = None \<and>
   map_option running (subCache (invalidate (set_entry testCache ''file'' 1 (Some [49]) 0)) 1)
     = Some True \<and>
   (ttlFor (set_entry testCache ''file'' 1 (Some [49]) 0) 1 \<le> 0 \<or>
    (8::int) \<le> 7 + ttlFor (set_entry testCache ''file'' 1 (Some [49]) 0) 1) \<and>
   get (set_entry (invalidate (set_entry testCache ''file'' 1 (Some [49]) 0)) ''file'' 1 (Some [50]) 7)
     ''file'' 1 8 = Some [50]"
  using invalidate_clears_keeps_subcaches
    [where c = "set_entry testCache ''file'' 1 (Some [49]) 0" and name = "''file''" and depth = 1
       and d = 1 and t = 7 and t' = 8 and v = "Some [50]"]
  by (simp add: get_def set_entry_def testCache_def ttlFor_def ttlGet_def ttlSet_def isExpired_def
      ttlStart_def ttlNew_def subCache_def Let_def)

section \<open>Properties of the router\<close>

lemma stringsCompare_neg: "stringsCompare a b < 0 \<longleftrightarrow> a < b"
  by (simp add: stringsCompare_def)

lemma stringsCompare_zero: "stringsCompare a b = 0 \<longleftrightarrow> a = b"
  by (simp add: stringsCompare_def)

lemma binarySearchLoop_partition:
  "sorted (map key x) \<Longrightarrow> (\<forall>a. cmp a target < 0 \<longleftrightarrow> key a < (target :: 'k :: linorder)) \<Longrightarrow>
    i \<le> j \<Longrightarrow> j \<le> length x \<Longrightarrow>
    (\<forall>k<i. key (x ! k) < target) \<Longrightarrow>
    (\<forall>k. j \<le> k \<and> k < length x \<longrightarrow> target \<le> key (x ! k)) \<Longrightarrow>
    binarySearchLoop x target cmp i j \<le> length x \<and>
    (\<forall>k<binarySearchLoop x target cmp i j. key (x ! k) < target) \<and>
    (\<forall>k. binarySearchLoop x target cmp i j \<le> k \<and> k < length x \<longrightarrow> target \<le> key (x ! k))"
proof (induction x target cmp i j rule: binarySearchLoop.induct)
  case (1 x target cmp i j)
  note srtd = "1.prems"(1) and cmpk = "1.prems"(2) and ij = "1.prems"(3)
    and jlen = "1.prems"(4) and below = "1.prems"(5) and above = "1.prems"(6)
  show ?case
  proof (cases "i < j")
    case False
    then have "binarySearchLoop x target cmp i j = i"
      by (subst binarySearchLoop.simps) simp
    moreover have "i = j" using False ij by simp
    ultimately show ?thesis using jlen below above by simp
  next
    case True
    define h where "h = (i + j) div 2"
    have hb: "i \<le> h" "h < j" using True by (simp_all add: h_def)
    have srt: "\<And>a b. a \<le> b \<Longrightarrow> b < length x \<Longrightarrow> key (x ! a) \<le> key (x ! b)"
      using srtd by (auto simp add: sorted_iff_nth_mono)
    show ?thesis
    proof (cases "cmp (x ! h) target < 0")
      case lt: True
      then have klt: "key (x ! h) < target" using cmpk by simp
      have pre: "\<forall>k<h + 1. key (x ! k) < target"
      proof (intro allI impI)
        fix k assume "k < h + 1"
        then have "key (x ! k) \<le> key (x ! h)" using srt [of k h] hb jlen by simp
        then show "key (x ! k) < target" using klt by simp
      qed
      have hj: "h + 1 \<le> j" using hb by simp
      have "binarySearchLoop x target cmp i j = binarySearchLoop x target cmp (h + 1) j"
        using True lt by (subst binarySearchLoop.simps) (simp add: h_def Let_def)
      moreover have "binarySearchLoop x target cmp (h + 1) j \<le> length x \<and>
        (\<forall>k<binarySearchLoop x target cmp (h + 1) j. key (x ! k) < target) \<and>
        (\<forall>k. binarySearchLoop x target cmp (h + 1) j \<le> k \<and> k < length x \<longrightarrow> target \<le> key (x ! k))"
        by (rule "1.IH"(1) [OF True h_def lt srtd cmpk hj jlen pre above])
      ultimately show ?thesis by simp
    next
      case ge: False
      then have kge: "target \<le> key (x ! h)" using cmpk by simp
      have post: "\<forall>k. h \<le> k \<and> k < length x \<longrightarrow> target \<le> key (x ! k)"
      proof (intro allI impI)
        fix k assume "h \<le> k \<and> k < length x"
        then have "key (x ! h) \<le> key (x ! k)" using srt [of h k] by simp
        then show "target \<le> key (x ! k)" using kge by simp
      qed
      have hlen: "h \<le> length x" using hb jlen by simp
      have "binarySearchLoop x target cmp i j = binarySearchLoop x target cmp i h"
        using True ge by (subst binarySearchLoop.simps) (simp add: h_def Let_def)
      moreover have "binarySearchLoop x target cmp i h \<le> length x \<and>
        (\<forall>k<binarySearchLoop x target cmp i h. key (x ! k) < target) \<and>
        (\<forall>k. binarySearchLoop x target cmp i h \<le> k \<and> k < length x \<longrightarrow> target \<le> key (x ! k))"
        by (rule "1.IH"(2) [OF True h_def ge srtd cmpk hb(1) hlen below post])
      ultimately show ?thesis by simp
    qed
  qed
qed

lemma findChildLocked_sound:
  "findChildLocked h name = (i, Some c) \<Longrightarrow> i < length (children h) \<and> c = children h ! i \<and> Name c = name"
  by (auto simp add: findChildLocked_def BinarySearchFunc_def Let_def stringsCompare_zero
      split: if_splits)

lemma GetChild_absent:
  assumes "name \<notin> Name ` set (children h)"
  shows "GetChild h name = None"
proof (cases "findChildLocked h name")
  case (Pair i oc)
  show ?thesis
  proof (cases oc)
    case None
    with Pair show ?thesis by (simp add: GetChild_def)
  next
    case (Some c)
    with Pair have "i < length (children h) \<and> c = children h ! i \<and> Name c = name"
      using findChildLocked_sound by simp
    then have "name \<in> Name ` set (children h)" by (metis imageI nth_mem)
    with assms show ?thesis by simp
  qed
qed

lemma GetChild_present:
  assumes srtd: "sorted (map Name (children h))"
    and mem: "name \<in> Name ` set (children h)"
  shows "\<exists>c \<in> set (children h). Name c = name \<and> GetChild h name = Some c"
proof -
  let ?x = "children h"
  let ?cmp = "\<lambda>child name. stringsCompare (Name child) name"
  let ?i = "binarySearchLoop ?x name ?cmp 0 (length ?x)"
  have part: "?i \<le> length ?x \<and> (\<forall>k < ?i. Name (?x ! k) < name) \<and>
      (\<forall>k. ?i \<le> k \<and> k < length ?x \<longrightarrow> name \<le> Name (?x ! k))"
    by (rule binarySearchLoop_partition [where key = Name, OF srtd])
       (auto simp add: stringsCompare_neg)
  from mem obtain k where k: "k < length ?x" "Name (?x ! k) = name"
    by (auto simp add: in_set_conv_nth)
  have ik: "?i \<le> k"
  proof (rule ccontr)
    assume "\<not> ?i \<le> k"
    then have "Name (?x ! k) < name" using part by simp
    with k show False by simp
  qed
  then have ilen: "?i < length ?x" using k by simp
  have "name \<le> Name (?x ! ?i)" using part ilen by simp
  moreover have "Name (?x ! ?i) \<le> Name (?x ! k)"
    using srtd ik k by (auto simp add: sorted_iff_nth_mono)
  ultimately have eq: "Name (?x ! ?i) = name" using k by simp
  have "GetChild h name = Some (?x ! ?i)"
    using ilen eq
    by (simp add: GetChild_def findChildLocked_def BinarySearchFunc_def Let_def stringsCompare_zero)
  moreover have "?x ! ?i \<in> set ?x" using ilen by simp
  ultimately show ?thesis using eq by blast
qed

lemma Name_init: "Name (init c) = Name c"
  by (simp add: init_def split: option.splits)

lemma rp_init: "\<exists>tr. rp (init c) = Some tr"
  by (simp add: init_def split: option.splits)

lemma SetChildren_children:
  "children (fst (SetChildren h sr cs)) = sort_key Name (map init cs) \<and>
   staticRoot (fst (SetChildren h sr cs)) = sr \<and>
   StatCache (fst (SetChildren h sr cs)) = StatCache h"
  by (simp add: SetChildren_def Let_def)

lemma SetChildren_sorted: "sorted (map Name (children (fst (SetChildren h sr cs))))"
  by (simp add: SetChildren_children)

lemma SetChildren_initialised: "\<forall>c \<in> set (children (fst (SetChildren h sr cs))). rp c \<noteq> None"
  by (auto simp add: SetChildren_children rp_init)

lemma SetChildren_closed:
  "snd (SetChildren h sr cs) = fold CloseIdleConnections (sort_key Name (map init cs)) []"
  by (simp add: SetChildren_def Let_def)

lemma Close_closed: "snd (Close h) = fold CloseIdleConnections (children h) []"
  by (simp add: Close_def Let_def)

subsection \<open>Replacing the backends\<close>

text \<open>
  Claim C1. The claim: after \<^verbatim>\<open>SetChildren\<close> has swapped the new backends in, idle
  connections are closed on exactly the backends installed before the call and never on
  the ones just installed. The code sets \<^verbatim>\<open>oldChildren := children\<close>, the argument, where
  \<^verbatim>\<open>Close\<close> reads \<^verbatim>\<open>h.children\<close>. On a handler that serves the backend \<^verbatim>\<open>old\<close> (pool 1),
  \<^verbatim>\<open>SetChildren\<close> with the backend \<^verbatim>\<open>new\<close> (pool 2) closes the idle connections of pool 2,
  the backend just installed, and leaves pool 1 alone; \<^verbatim>\<open>Close\<close> on the same handler
  closes pool 1.
\<close>

theorem SetChildren_closes_installed_not_previous:
  "children (fst (SetChildren emptyHandler [] [oldChild])) = [init oldChild] \<and>
   Transport (init oldChild) = HTTPTransport 1 \<and>
   Transport (init newChild) = HTTPTransport 2 \<and>
   children (fst (SetChildren (fst (SetChildren emptyHandler [] [oldChild])) [] [newChild]))
     = [init newChild] \<and>
   snd (SetChildren (fst (SetChildren emptyHandler [] [oldChild])) [] [newChild]) = [2] \<and>
   snd (Close (fst (SetChildren emptyHandler [] [oldChild]))) = [1]"
  by (simp add: SetChildren_def Close_def emptyHandler_def oldChild_def newChild_def init_def
      CloseIdleConnections_def)

subsection \<open>Delegation\<close>


text \<open>
  Claim C3. On a handler whose backends are sorted by name and have their proxies built
  (\<^verbatim>\<open>SetChildren\<close> establishes both, see \<open>SetChildren_sorted\<close> and
  \<open>SetChildren_initialised\<close>), a delegated request for the backend \<open>name\<close> and the
  remaining segments \<open>rest\<close> is answered as follows. If no backend has that name, the
  response is 404 Not Found. Otherwise there is a backend of that name such that: if its
  base address fails to parse, the response is 500 with the error message as body; and if
  it parses, the request's target becomes the parsed address with the remaining segments
  joined to its path, its host becomes that of the address, and the response is what
  that backend's proxy answers to the rewritten request, unchanged.
\<close>

theorem delegate_routes:
  assumes srtd: "sorted (map Name (children h))"
    and inited: "\<forall>c \<in> set (children h). rp c \<noteq> None"
  shows "(name \<notin> Name ` set (children h) \<longrightarrow>
            delegate ext h (name # rest) r = Inr (name, \<lparr>status = 404, body = []\<rparr>)) \<and>
         (name \<in> Name ` set (children h) \<longrightarrow>
            (\<exists>child \<in> set (children h). \<exists>tr. Name child = name \<and> rp child = Some tr \<and>
               delegate ext h (name # rest) r =
                 (case urlParse ext (BaseURL child) of
                    Inl err \<Rightarrow> Inr (name, \<lparr>status = 500, body = err\<rparr>)
                  | Inr u \<Rightarrow>
                      Inr (name, rpServeHTTP ext tr
                        (r\<lparr>URL := u\<lparr>Path := pathJoin ext (Path u) (Join ext rest)\<rparr>,
                           Host := URLHost u\<rparr>)))))"
proof (intro conjI impI)
  assume "name \<notin> Name ` set (children h)"
  then have "GetChild h name = None" by (rule GetChild_absent)
  then show "delegate ext h (name # rest) r = Inr (name, \<lparr>status = 404, body = []\<rparr>)"
    by (simp add: delegate_def)
next
  assume "name \<in> Name ` set (children h)"
  with srtd obtain child where child: "child \<in> set (children h)" "Name child = name"
    "GetChild h name = Some child"
    using GetChild_present by blast
  from inited child(1) obtain tr where tr: "rp child = Some tr" by auto
  have "delegate ext h (name # rest) r =
          (case urlParse ext (BaseURL child) of
             Inl err \<Rightarrow> Inr (name, \<lparr>status = 500, body = err\<rparr>)
           | Inr u \<Rightarrow>
               Inr (name, rpServeHTTP ext tr
                 (r\<lparr>URL := u\<lparr>Path := pathJoin ext (Path u) (Join ext rest)\<rparr>,
                    Host := URLHost u\<rparr>)))"
    using child(3) tr by (simp add: delegate_def Let_def split: sum.splits)
  with child tr show "\<exists>child \<in> set (children h). \<exists>tr. Name child = name \<and> rp child = Some tr \<and>
               delegate ext h (name # rest) r =
                 (case urlParse ext (BaseURL child) of
                    Inl err \<Rightarrow> Inr (name, \<lparr>status = 500, body = err\<rparr>)
                  | Inr u \<Rightarrow>
                      Inr (name, rpServeHTTP ext tr
                        (r\<lparr>URL := u\<lparr>Path := pathJoin ext (Path u) (Join ext rest)\<rparr>,
                           Host := URLHost u\<rparr>)))"
    by blast
qed

text \<open>
  Three requests on the example handler: to an unknown backend, to a backend whose
  address does not parse, and to the backend \<^verbatim>\<open>old\<close>.
\<close>

theorem delegate_routes_witness:
  "sorted (map Name (children exampleHandler)) \<and>
   map rp (children exampleHandler)
     = [Some NoTransport, Some (HTTPTransport 2), Some (HTTPTransport 1)] \<and>
   ''zz'' \<notin> Name ` set (children exampleHandler) \<and>
   delegate exampleExt exampleHandler [''zz'', ''a''] (requestOf ''PUT'' ''/zz/a'')
     = Inr (''zz'', \<lparr>status = 404, body = []\<rparr>) \<and>
   ''bad'' \<in> Name ` set (children exampleHandler) \<and>
   delegate exampleExt exampleHandler [''bad'', ''a''] (requestOf ''PUT'' ''/bad/a'')
     = Inr (''bad'', \<lparr>status = 500, body = ''empty url''\<rparr>) \<and>
   ''old'' \<in> Name ` set (children exampleHandler) \<and>
   delegate exampleExt exampleHandler [''old'', ''a'', ''b''] (requestOf ''PUT'' ''/old/a/b'')
     = Inr (''old'', \<lparr>status = 207, body = ''/a/b''\<rparr>)"
proof -
  have ch: "children exampleHandler = [init badChild, init newChild, init oldChild]"
    by (simp add: exampleHandler_def SetChildren_def emptyHandler_def oldChild_def newChild_def
        badChild_def init_def)
  have h1: "sorted (map Name (children exampleHandler))"
    by (simp add: ch Name_init oldChild_def newChild_def badChild_def)
  have h2: "\<forall>c \<in> set (children exampleHandler). rp c \<noteq> None"
    using rp_init by (auto simp add: ch)
  have names: "Name ` set (children exampleHandler) = {''bad'', ''new'', ''old''}"
    by (auto simp add: ch Name_init oldChild_def newChild_def badChild_def)
  have zz: "''zz'' \<notin> Name ` set (children exampleHandler)" by (simp add: names)
  have bad: "''bad'' \<in> Name ` set (children exampleHandler)" by (simp add: names)
  have old: "''old'' \<in> Name ` set (children exampleHandler)" by (simp add: names)
  have r1: "delegate exampleExt exampleHandler [''zz'', ''a''] (requestOf ''PUT'' ''/zz/a'')
     = Inr (''zz'', \<lparr>status = 404, body = []\<rparr>)"
    using delegate_routes [OF h1 h2, of "''zz''" exampleExt "[''a'']" "requestOf ''PUT'' ''/zz/a''"] zz
    by simp
  have r2: "delegate exampleExt exampleHandler [''bad'', ''a''] (requestOf ''PUT'' ''/bad/a'')
     = Inr (''bad'', \<lparr>status = 500, body = ''empty url''\<rparr>)"
    using delegate_routes [OF h1 h2, of "''bad''" exampleExt "[''a'']" "requestOf ''PUT'' ''/bad/a''"] bad
    by (auto simp add: ch init_def oldChild_def newChild_def badChild_def exampleExt_def
        exampleParse_def)
  have r3: "delegate exampleExt exampleHandler [''old'', ''a'', ''b''] (requestOf ''PUT'' ''/old/a/b'')
     = Inr (''old'', \<lparr>status = 207, body = ''/a/b''\<rparr>)"
    using delegate_routes [OF h1 h2, of "''old''" exampleExt "[''a'', ''b'']"
        "requestOf ''PUT'' ''/old/a/b''"] old
    by (auto simp add: ch init_def oldChild_def newChild_def badChild_def exampleExt_def
        exampleParse_def exampleProxy_def joinSlash_def requestOf_def)
  have rps: "map rp (children exampleHandler)
     = [Some NoTransport, Some (HTTPTransport 2), Some (HTTPTransport 1)]"
    by (simp add: ch init_def oldChild_def newChild_def badChild_def)
  show ?thesis using h1 rps zz bad old r1 r2 r3 by blast
qed

subsection \<open>Routing by depth and invalidation\<close>

lemma maxPathLength_cases: "maxPathLength h = (if staticRoot h = [] then 1 else 2)"
  by (simp add: maxPathLength_def)

lemma maxPathLength_StatCache [simp]: "maxPathLength (h\<lparr>StatCache := c\<rparr>) = maxPathLength h"
  by (simp add: maxPathLength_def)


lemma ServeHTTP_not_PROPFIND:
  assumes "Method r \<noteq> ''PROPFIND''"
  shows "ServeHTTP ext h r =
    (let inv = (StatCache h \<noteq> None \<and> Method r \<noteq> ''GET'');
         h1 = (if inv then h\<lparr>StatCache := map_option invalidate (StatCache h)\<rparr> else h);
         pre = (if inv then [Invalidated] else []);
         mpl = maxPathLength h;
         segs = CleanAndSplit ext (Path (URL r))
     in if mpl \<le> length segs then
          \<lparr>handlerAfter = h1, events = pre @ [Delegated (drop (mpl - 1) segs)],
           outcome = map_sum id snd (delegate ext h1 (drop (mpl - 1) segs) r)\<rparr>
        else
          \<lparr>handlerAfter = h1, events = pre @ [HandledLocally], outcome = Inr (handle ext h1 r)\<rparr>)"
  using assms by (simp add: ServeHTTP_def Let_def)


lemma exampleHandler_fields:
  "staticRoot exampleHandler = [] \<and> StatCache exampleHandler = None \<and>
   children exampleHandler = [init badChild, init newChild, init oldChild]"
  by (simp add: exampleHandler_def SetChildren_def emptyHandler_def oldChild_def newChild_def
      badChild_def init_def)

lemma cachingHandler_fields:
  "staticRoot cachingHandler = [] \<and>
   StatCache cachingHandler = Some (set_entry testCache ''/old/a'' 1 (Some [49]) 0) \<and>
   children cachingHandler = [init badChild, init newChild, init oldChild]"
  by (simp add: cachingHandler_def exampleHandler_fields)

lemma segments_examples:
  "pathSegments ''/'' = [] \<and> pathSegments ''/domain'' = [''domain''] \<and>
   pathSegments ''/old/a'' = [''old'', ''a''] \<and>
   pathSegments ''/domain/old/a'' = [''domain'', ''old'', ''a'']"
  by (simp add: pathSegments_def)



lemma handle_withSpecPROPFIND: "handle (withSpecPROPFIND ext cd now) h r = handle ext h r"
  by (simp add: handle_def withSpecPROPFIND_def)



lemma handle_StatCache: "handle ext (h\<lparr>StatCache := c\<rparr>) r = handle ext h r"
  by (simp add: handle_def)

lemma ServeHTTP_PROPFIND:
  "Method r = ''PROPFIND'' \<Longrightarrow>
   ServeHTTP (withSpecPROPFIND ext cd now) h r = handlePROPFIND_spec ext cd now h r"
  by (simp add: ServeHTTP_def withSpecPROPFIND_def)

lemma get_None_later:
  "get c name depth t = None \<Longrightarrow> t \<le> t' \<Longrightarrow> get c name depth t' = None"
  by (auto simp add: get_def ttlGet_def isExpired_def split: option.splits if_splits)

lemma get_set_entry_other_name:
  "name' \<noteq> name \<Longrightarrow> get (set_entry c name depth v t) name' d t' = get c name' d t'"
  by (auto simp add: get_def set_entry_def ttlGet_def ttlSet_def isExpired_def ttlStart_def
      ttlNew_def Let_def split: option.splits)

lemma get_set_entry_kept:
  assumes miss: "get c name depth now = None" and later: "now \<le> t"
    and had: "get c name' d t \<noteq> None"
  shows "get (set_entry c name depth v now) name' d t = get c name' d t"
proof (cases "name' = name \<and> d = depth")
  case True
  with miss later have "get c name' d t = None" using get_None_later [of c name depth now t] by simp
  with had show ?thesis by simp
next
  case False
  then show ?thesis
    using get_set_entry_other_name [of name' name] get_set_entry_other_depth [of depth d]
    by (cases "d = depth") auto
qed

lemma handlePROPFIND_spec_events:
  "events (handlePROPFIND_spec ext cd now h r) =
     [if maxPathLength h \<le> length (CleanAndSplit ext (Path (URL r)))
      then Delegated (drop (maxPathLength h - 1) (CleanAndSplit ext (Path (URL r))))
      else HandledLocally]"
  by (simp add: handlePROPFIND_spec_def Let_def split: option.splits)

lemma handlePROPFIND_spec_no_cache:
  "StatCache h = None \<Longrightarrow> StatCache (handlerAfter (handlePROPFIND_spec ext cd now h r)) = None"
  by (simp add: handlePROPFIND_spec_def Let_def)

lemma handlePROPFIND_spec_keeps:
  assumes "StatCache h = Some c"
  shows "\<exists>c'. StatCache (handlerAfter (handlePROPFIND_spec ext cd now h r)) = Some c' \<and>
           (\<forall>name depth t. now \<le> t \<longrightarrow> get c name depth t \<noteq> None \<longrightarrow>
              get c' name depth t = get c name depth t)"
proof (cases "maxPathLength h \<le> length (CleanAndSplit ext (Path (URL r)))")
  case True
  then show ?thesis using assms by (simp add: handlePROPFIND_spec_def Let_def)
next
  case shallow: False
  show ?thesis
  proof (cases "get c (Path (URL r)) (depthOf cd r) now")
    case (Some bs)
    then show ?thesis using assms shallow by (simp add: handlePROPFIND_spec_def Let_def)
  next
    case None
    show ?thesis
    proof (cases "listed cd (handle ext h r)")
      case False
      then show ?thesis
        using assms shallow None by (simp add: handlePROPFIND_spec_def Let_def)
    next
      case True
      have "StatCache (handlerAfter (handlePROPFIND_spec ext cd now h r)) =
              Some (set_entry c (Path (URL r)) (depthOf cd r)
                      (Some (serialise cd (handle ext h r))) now)"
        using assms shallow None True by (simp add: handlePROPFIND_spec_def Let_def)
      then show ?thesis using get_set_entry_kept [OF None] by blast
    qed
  qed
qed



lemma cachingHandler_entry:
  "get (set_entry testCache ''/old/a'' 1 (Some [49]) 0) ''/old/a'' 1 0 = Some [49]"
  by (simp add: get_set_entry_same ttlFor_def testCache_def)



text \<open>
  Claim C4. Every request whose method is neither \<^verbatim>\<open>GET\<close> nor \<^verbatim>\<open>PROPFIND\<close>, so every
  mutating request (\<^verbatim>\<open>PUT\<close>, \<^verbatim>\<open>MKCOL\<close>, \<^verbatim>\<open>DELETE\<close>, \<^verbatim>\<open>MOVE\<close>, ...), whatever its path,
  first invalidates the handler's cache and only then is routed: when the handler has a
  cache the first call is the invalidation and the second and last is the delegation or
  the local handling (a handler without a cache has nothing to invalidate and goes
  straight to the routing), and the routing runs on the handler whose cache has been
  invalidated.
\<close>

theorem ServeHTTP_invalidates_first:
  assumes "Method r \<noteq> ''GET''" and "Method r \<noteq> ''PROPFIND''"
  shows "let segs = CleanAndSplit ext (Path (URL r));
             mpl = maxPathLength h;
             h' = h\<lparr>StatCache := map_option invalidate (StatCache h)\<rparr>;
             route = (if mpl \<le> length segs then Delegated (drop (mpl - 1) segs)
                      else HandledLocally);
             S = ServeHTTP ext h r
         in handlerAfter S = h' \<and>
            events S = (case StatCache h of None \<Rightarrow> [route] | Some c \<Rightarrow> [Invalidated, route]) \<and>
            outcome S = (if mpl \<le> length segs
                         then map_sum id snd (delegate ext h' (drop (mpl - 1) segs) r)
                         else Inr (handle ext h' r))"
proof (cases "StatCache h")
  case None
  then have same: "h\<lparr>StatCache := None\<rparr> = h" by (cases h) simp
  show ?thesis
    using assms None by (simp add: ServeHTTP_not_PROPFIND Let_def same)
next
  case (Some c)
  then show ?thesis
    using assms by (simp add: ServeHTTP_not_PROPFIND Let_def)
qed

text \<open>
  A \<^verbatim>\<open>PUT\<close> of \<^verbatim>\<open>/old/a\<close> on the handler whose cache holds an entry: the entry is there
  before, the cache is invalidated first, the request is delegated next, and the entry
  is gone.
\<close>

theorem ServeHTTP_invalidates_first_witness:
  "StatCache cachingHandler = Some (set_entry testCache ''/old/a'' 1 (Some [49]) 0) \<and>
   Method (requestOf ''PUT'' ''/old/a'') \<noteq> ''GET'' \<and>
   Method (requestOf ''PUT'' ''/old/a'') \<noteq> ''PROPFIND'' \<and>
   get (set_entry testCache ''/old/a'' 1 (Some [49]) 0) ''/old/a'' 1 0 = Some [49] \<and>
   events (ServeHTTP exampleExt cachingHandler (requestOf ''PUT'' ''/old/a''))
     = [Invalidated, Delegated [''old'', ''a'']] \<and>
   StatCache (handlerAfter (ServeHTTP exampleExt cachingHandler (requestOf ''PUT'' ''/old/a'')))
     = Some (invalidate (set_entry testCache ''/old/a'' 1 (Some [49]) 0)) \<and>
   get (invalidate (set_entry testCache ''/old/a'' 1 (Some [49]) 0)) ''/old/a'' 1 0 = None \<and>
   outcome (ServeHTTP exampleExt cachingHandler (requestOf ''PUT'' ''/old/a''))
     = map_sum id snd
         (delegate exampleExt
            (cachingHandler\<lparr>StatCache :=
               Some (invalidate (set_entry testCache ''/old/a'' 1 (Some [49]) 0))\<rparr>)
            [''old'', ''a''] (requestOf ''PUT'' ''/old/a''))"
proof -
  have c: "StatCache cachingHandler = Some (set_entry testCache ''/old/a'' 1 (Some [49]) 0)"
    by (simp add: cachingHandler_fields)
  have m1: "Method (requestOf ''PUT'' ''/old/a'') \<noteq> ''GET''" by (simp add: requestOf_def)
  have m2: "Method (requestOf ''PUT'' ''/old/a'') \<noteq> ''PROPFIND''" by (simp add: requestOf_def)
  have g: "get (set_entry testCache ''/old/a'' 1 (Some [49]) 0) ''/old/a'' 1 0 = Some [49]"
    by (simp add: get_set_entry_same ttlFor_def testCache_def)
  have segs: "CleanAndSplit exampleExt (Path (URL (requestOf ''PUT'' ''/old/a''))) = [''old'', ''a'']"
    by (simp add: exampleExt_def requestOf_def segments_examples)
  have mpl: "maxPathLength cachingHandler = 1"
    by (simp add: maxPathLength_cases cachingHandler_fields)
  show ?thesis
    using c m1 m2 g ServeHTTP_invalidates_first [OF m1 m2, of exampleExt cachingHandler]
    by (simp add: Let_def get_invalidate segs mpl)
qed

text \<open>
  Claim C10. The handler invalidates the cache exactly when a \<^verbatim>\<open>StatCache\<close> is configured
  and the method is neither \<^verbatim>\<open>GET\<close> nor \<^verbatim>\<open>PROPFIND\<close>. Every other method, \<^verbatim>\<open>HEAD\<close> and
  \<^verbatim>\<open>OPTIONS\<close> included, always invalidates: the cache afterwards is the invalidated one,
  in which every key is absent. A \<^verbatim>\<open>GET\<close> leaves the cache as it is. A \<^verbatim>\<open>PROPFIND\<close>, served
  by the listing handler of the spec, never invalidates: every entry that can be read
  before can be read afterwards, with the same value.
\<close>

theorem ServeHTTP_invalidates_iff:
  "let S = ServeHTTP (withSpecPROPFIND ext cd now) h r
   in (Invalidated \<in> set (events S) \<longleftrightarrow>
         StatCache h \<noteq> None \<and> Method r \<noteq> ''GET'' \<and> Method r \<noteq> ''PROPFIND'') \<and>
      (StatCache h = None \<longrightarrow> StatCache (handlerAfter S) = None) \<and>
      (\<forall>c. StatCache h = Some c \<longrightarrow>
         (\<exists>c'. StatCache (handlerAfter S) = Some c' \<and>
            (if Method r = ''PROPFIND'' then
               (\<forall>name depth t. now \<le> t \<longrightarrow> get c name depth t \<noteq> None \<longrightarrow>
                  get c' name depth t = get c name depth t)
             else if Method r = ''GET'' then c' = c
             else c' = invalidate c \<and> (\<forall>name depth t. get c' name depth t = None))))"
proof (cases "Method r = ''PROPFIND''")
  case True
  then have S: "ServeHTTP (withSpecPROPFIND ext cd now) h r = handlePROPFIND_spec ext cd now h r"
    by (rule ServeHTTP_PROPFIND)
  have ev: "Invalidated \<notin> set (events (handlePROPFIND_spec ext cd now h r))"
    by (simp add: handlePROPFIND_spec_events)
  show ?thesis
    unfolding Let_def S
    using True ev handlePROPFIND_spec_no_cache [of h ext cd now r]
      handlePROPFIND_spec_keeps [of h _ ext cd now r]
    by auto
next
  case False
  then show ?thesis
    by (auto simp add: ServeHTTP_not_PROPFIND Let_def get_invalidate)
qed

text \<open>
  On the handler whose cache holds an entry: \<^verbatim>\<open>HEAD\<close> and \<^verbatim>\<open>OPTIONS\<close> invalidate and the
  entry is gone, \<^verbatim>\<open>PROPFIND\<close> and \<^verbatim>\<open>GET\<close> do not and the entry is still read; without a
  cache a \<^verbatim>\<open>PUT\<close> does not invalidate.
\<close>

theorem ServeHTTP_invalidates_iff_witness:
  "StatCache cachingHandler = Some (set_entry testCache ''/old/a'' 1 (Some [49]) 0) \<and>
   get (set_entry testCache ''/old/a'' 1 (Some [49]) 0) ''/old/a'' 1 0 = Some [49] \<and>
   Invalidated \<in> set (events (ServeHTTP (withSpecPROPFIND exampleExt exampleCodec 0)
      cachingHandler (requestOf ''HEAD'' ''/old/a''))) \<and>
   map_option (\<lambda>c. get c ''/old/a'' 1 0)
     (StatCache (handlerAfter (ServeHTTP (withSpecPROPFIND exampleExt exampleCodec 0)
        cachingHandler (requestOf ''HEAD'' ''/old/a'')))) = Some None \<and>
   Invalidated \<in> set (events (ServeHTTP (withSpecPROPFIND exampleExt exampleCodec 0)
      cachingHandler (requestOf ''OPTIONS'' ''/''))) \<and>
   map_option (\<lambda>c. get c ''/old/a'' 1 0)
     (StatCache (handlerAfter (ServeHTTP (withSpecPROPFIND exampleExt exampleCodec 0)
        cachingHandler (requestOf ''OPTIONS'' ''/'')))) = Some None \<and>
   Invalidated \<notin> set (events (ServeHTTP (withSpecPROPFIND exampleExt exampleCodec 0)
      cachingHandler (requestOf ''PROPFIND'' ''/''))) \<and>
   map_option (\<lambda>c. get c ''/old/a'' 1 0)
     (StatCache (handlerAfter (ServeHTTP (withSpecPROPFIND exampleExt exampleCodec 0)
        cachingHandler (requestOf ''PROPFIND'' ''/'')))) = Some (Some [49]) \<and>
   Invalidated \<notin> set (events (ServeHTTP (withSpecPROPFIND exampleExt exampleCodec 0)
      cachingHandler (requestOf ''GET'' ''/old/a''))) \<and>
   map_option (\<lambda>c. get c ''/old/a'' 1 0)
     (StatCache (handlerAfter (ServeHTTP (withSpecPROPFIND exampleExt exampleCodec 0)
        cachingHandler (requestOf ''GET'' ''/old/a'')))) = Some (Some [49]) \<and>
   Invalidated \<notin> set (events (ServeHTTP (withSpecPROPFIND exampleExt exampleCodec 0)
      exampleHandler (requestOf ''PUT'' ''/old/a'')))"
proof -
  let ?c = "set_entry testCache ''/old/a'' 1 (Some [49]) 0"
  let ?S = "\<lambda>h m p. ServeHTTP (withSpecPROPFIND exampleExt exampleCodec 0) h (requestOf m p)"
  have c: "StatCache cachingHandler = Some ?c" by (simp add: cachingHandler_fields)
  have n: "StatCache exampleHandler = None" by (simp add: exampleHandler_fields)
  have m: "\<And>m p. Method (requestOf m p) = m" by (simp add: requestOf_def)
  note e = cachingHandler_entry
  have head: "Invalidated \<in> set (events (?S cachingHandler ''HEAD'' ''/old/a'')) \<and>
      map_option (\<lambda>c. get c ''/old/a'' 1 0)
        (StatCache (handlerAfter (?S cachingHandler ''HEAD'' ''/old/a''))) = Some None"
    using ServeHTTP_invalidates_iff [of exampleExt exampleCodec 0 cachingHandler
        "requestOf ''HEAD'' ''/old/a''"] c
    by (auto simp add: Let_def m)
  have opts: "Invalidated \<in> set (events (?S cachingHandler ''OPTIONS'' ''/'')) \<and>
      map_option (\<lambda>c. get c ''/old/a'' 1 0)
        (StatCache (handlerAfter (?S cachingHandler ''OPTIONS'' ''/''))) = Some None"
    using ServeHTTP_invalidates_iff [of exampleExt exampleCodec 0 cachingHandler
        "requestOf ''OPTIONS'' ''/''"] c
    by (auto simp add: Let_def m)
  have pf: "Invalidated \<notin> set (events (?S cachingHandler ''PROPFIND'' ''/'')) \<and>
      map_option (\<lambda>c. get c ''/old/a'' 1 0)
        (StatCache (handlerAfter (?S cachingHandler ''PROPFIND'' ''/''))) = Some (Some [49])"
    using ServeHTTP_invalidates_iff [of exampleExt exampleCodec 0 cachingHandler
        "requestOf ''PROPFIND'' ''/''"] c e
    by (auto simp add: Let_def m)
  have gt: "Invalidated \<notin> set (events (?S cachingHandler ''GET'' ''/old/a'')) \<and>
      map_option (\<lambda>c. get c ''/old/a'' 1 0)
        (StatCache (handlerAfter (?S cachingHandler ''GET'' ''/old/a''))) = Some (Some [49])"
    using ServeHTTP_invalidates_iff [of exampleExt exampleCodec 0 cachingHandler
        "requestOf ''GET'' ''/old/a''"] c e
    by (auto simp add: Let_def m)
  have put: "Invalidated \<notin> set (events (?S exampleHandler ''PUT'' ''/old/a''))"
    using ServeHTTP_invalidates_iff [of exampleExt exampleCodec 0 exampleHandler
        "requestOf ''PUT'' ''/old/a''"] n
    by (simp add: Let_def m)
  show ?thesis using c e head opts pf gt put by blast
qed

section \<open>Properties of the virtual directory filesystem\<close>

lemma lookupNode_cases:
  "lookupNode fs p \<noteq> None \<longleftrightarrow>
     pathSegments p = [] \<or>
     (StaticRoot fs \<noteq> [] \<and> pathSegments p = [StaticRoot fs]) \<or>
     (\<exists>b \<in> set (Children fs).
        pathSegments p = (if StaticRoot fs = [] then [b] else [StaticRoot fs, b]))"
  by (auto simp add: lookupNode_def split: list.splits if_splits)

lemma Stat_lookupNode: "(\<exists>fi. Stat fs now p = Inr fi) \<longleftrightarrow> lookupNode fs p \<noteq> None"
  by (auto simp add: Stat_def split: option.splits)

lemma testFS_nodes:
  "lookupNode testFS ''/'' = Some RootNode \<and>
   lookupNode testFS ''/domain'' = Some StaticRootNode \<and>
   lookupNode testFS ''/domain/remote1'' = Some (BackendNode ''remote1'') \<and>
   lookupNode testFS ''/domain/remote3'' = None"
  by (simp add: lookupNode_def pathSegments_def testFS_def)

lemma testFS_fields:
  "StaticRoot testFS = ''domain'' \<and> Children testFS = [''remote1'', ''remote2'', ''remote4'']"
  by (simp add: testFS_def)

lemma testFS_segments:
  "pathSegments ''/'' = [] \<and> pathSegments ''/domain'' = [''domain''] \<and>
   pathSegments ''/domain/remote1'' = [''domain'', ''remote1''] \<and>
   pathSegments ''/domain/remote3'' = [''domain'', ''remote3'']"
  by (simp add: pathSegments_def)

text \<open>
  Claim C8. For every path that names a virtual-level node, that is every path that \<open>Stat\<close>
  answers, the root among them, \<^verbatim>\<open>removeAll(path)\<close> and \<^verbatim>\<open>rename(path, newPath)\<close> for any
  new path fail with Permission-Denied.
\<close>

theorem RemoveAll_Rename_virtual_denied:
  assumes "Stat fs now p = Inr fi"
  shows "RemoveAll other fs p = Inl ErrPermission \<and>
         Rename other' fs p newName = Inl ErrPermission"
proof -
  from assms obtain n where "lookupNode fs p = Some n"
    by (auto simp add: Stat_def split: option.splits)
  then show ?thesis by (simp add: RemoveAll_def Rename_def)
qed

text \<open>
  \<^verbatim>\<open>TestRemoveAll\<close> and \<^verbatim>\<open>TestRename\<close>: removing the root, and moving it to
  \<^verbatim>\<open>/domain/remote2/copy.txt\<close>.
\<close>

theorem RemoveAll_Rename_virtual_denied_witness:
  "Stat testFS 0 ''/'' = Inr \<lparr>Named = [], Sized = 0, ModdedTime = 0, Dir = True\<rparr> \<and>
   RemoveAll (\<lambda>p. Inr testFS) testFS ''/'' = Inl ErrPermission \<and>
   Rename (\<lambda>p q. Inr testFS) testFS ''/'' ''/domain/remote2/copy.txt'' = Inl ErrPermission"
proof -
  have s: "Stat testFS 0 ''/'' = Inr \<lparr>Named = [], Sized = 0, ModdedTime = 0, Dir = True\<rparr>"
    by (simp add: Stat_def testFS_nodes nodeName_def)
  show ?thesis
    using s RemoveAll_Rename_virtual_denied [OF s, of "\<lambda>p. Inr testFS" "\<lambda>p q. Inr testFS"
        "''/domain/remote2/copy.txt''"]
    by simp
qed

text \<open>
  Claim C9. \<^verbatim>\<open>mkdir(path)\<close> succeeds and leaves the filesystem as it was when the path names
  the root, the static root or a registered backend, and fails with Permission-Denied
  for every other path; it succeeds exactly on the paths that \<open>Stat\<close> answers and is
  denied exactly on those that \<open>Stat\<close> does not know.
\<close>

theorem Mkdir_existing_or_denied:
  "Mkdir fs p =
     (if pathSegments p = [] \<or>
         (StaticRoot fs \<noteq> [] \<and> pathSegments p = [StaticRoot fs]) \<or>
         (\<exists>b \<in> set (Children fs).
            pathSegments p = (if StaticRoot fs = [] then [b] else [StaticRoot fs, b]))
      then Inr fs else Inl ErrPermission) \<and>
   (Mkdir fs p = Inr fs \<longleftrightarrow> (\<exists>fi. Stat fs now p = Inr fi)) \<and>
   (Mkdir fs p = Inl ErrPermission \<longleftrightarrow> Stat fs now p = Inl ErrNotExist)"
proof (cases "lookupNode fs p")
  case None
  then show ?thesis
    using lookupNode_cases [of fs p] by (simp add: Mkdir_def Stat_def)
next
  case (Some n)
  then show ?thesis
    using lookupNode_cases [of fs p] by (simp add: Mkdir_def Stat_def)
qed

text \<open>
  \<^verbatim>\<open>TestMkdir\<close>: the root, \<^verbatim>\<open>/domain\<close> and \<^verbatim>\<open>/domain/remote1\<close> succeed, the unregistered
  \<^verbatim>\<open>/domain/remote3\<close> is denied.
\<close>

theorem Mkdir_existing_or_denied_witness:
  "Mkdir testFS ''/'' = Inr testFS \<and>
   Mkdir testFS ''/domain'' = Inr testFS \<and>
   Mkdir testFS ''/domain/remote1'' = Inr testFS \<and>
   Mkdir testFS ''/domain/remote3'' = Inl ErrPermission \<and>
   Stat testFS 0 ''/domain/remote3'' = Inl ErrNotExist"
proof -
  have m1: "Mkdir testFS ''/'' = Inr testFS"
    using Mkdir_existing_or_denied [of testFS "''/''" 0, THEN conjunct1]
    by (simp add: testFS_segments)
  have m2: "Mkdir testFS ''/domain'' = Inr testFS"
    using Mkdir_existing_or_denied [of testFS "''/domain''" 0, THEN conjunct1]
    by (simp add: testFS_segments testFS_fields)
  have m3: "Mkdir testFS ''/domain/remote1'' = Inr testFS"
    using Mkdir_existing_or_denied [of testFS "''/domain/remote1''" 0, THEN conjunct1]
    by (simp add: testFS_segments testFS_fields)
  have m4: "Mkdir testFS ''/domain/remote3'' = Inl ErrPermission"
    using Mkdir_existing_or_denied [of testFS "''/domain/remote3''" 0, THEN conjunct1]
    by (simp add: testFS_segments testFS_fields)
  have s4: "Stat testFS 0 ''/domain/remote3'' = Inl ErrNotExist"
    using m4 Mkdir_existing_or_denied [of testFS "''/domain/remote3''" 0] by blast
  show ?thesis using m1 m2 m3 m4 s4 by blast
qed

end
